theory Spec2Isabelle
  imports Main "HOL-Library.Word" "HOL-Library.List_Lexorder"
begin

unbundle bit_operations_syntax

section \<open>The one-wire driver (src/one-wire.c, first revision in the file)\<close>

text \<open>
  The model follows the current revision of the driver (lines 1-554 of
  \<^verbatim>\<open>src/one-wire.c\<close>) and its header \<^verbatim>\<open>src/unnamed/part_000\<close>.
  \<^item> \<^verbatim>\<open>uint8_t\<close> is \<open>8 word\<close>, \<^verbatim>\<open>uint16_t\<close> is \<open>16 word\<close>; values of type
    \<^verbatim>\<open>int\<close> and the \<^verbatim>\<open>int8_t\<close> return codes (which never leave -128..127) are \<open>int\<close>
    or, for loop counters, \<open>nat\<close>.
  \<^item> The two globals \<^verbatim>\<open>wire1state\<close> and \<^verbatim>\<open>wire1_idleloops\<close>, the bus line and the RAM
    that the \<^verbatim>\<open>uint8_t *\<close> arguments point into form one state record that every
    function takes and returns.  A pointer is an address (\<open>nat\<close>) into \<open>ram\<close>, so
    two pointer arguments may alias.
  \<^item> The I/O registers (\<^verbatim>\<open>PORTx\<close>, \<^verbatim>\<open>DDRx\<close>, \<^verbatim>\<open>PINx\<close> of \<^verbatim>\<open>avr/io.h\<close>) are not part
    of the sources.  They are a parameter: a driver gives the effect on the line of
    driving it low, of releasing it, and of reading the pin once.
\<close>

type_synonym u8 = "8 word"
type_synonym u16 = "16 word"

datatype wire1state_t = IDLE | ROM_COMMAND | FUNCTION_COMMAND | WAIT_POLL

record 'e driver =
  drv_hold :: "'e \<Rightarrow> 'e"
  drv_release :: "'e \<Rightarrow> 'e"
  drv_pin :: "'e \<Rightarrow> bool \<times> 'e"

record 'e w1 =
  wire1state :: wire1state_t
  wire1_idleloops :: u16
  line :: 'e
  ram :: "nat \<Rightarrow> u8"

text \<open>\<^verbatim>\<open>#define BV(n) (1 << (n))\<close>, used at type \<^verbatim>\<open>uint8_t\<close> with \<open>n < 8\<close>.\<close>

definition BV :: "nat \<Rightarrow> u8" where
  "BV n = push_bit n 1"

text \<open>The constants of the header.\<close>

definition W1_CRC_POLYNOMIAL :: u8 where "W1_CRC_POLYNOMIAL = 0x8C"
definition W1_ADDR_BYTE_CRC :: nat where "W1_ADDR_BYTE_CRC = 7"
definition W1_ROMCMD_READ :: u8 where "W1_ROMCMD_READ = 0x33"
definition W1_ROMCMD_MATCH :: u8 where "W1_ROMCMD_MATCH = 0x55"
definition W1_ROMCMD_SEARCH :: u8 where "W1_ROMCMD_SEARCH = 0xF0"
definition W1_ROMCMD_ALARM :: u8 where "W1_ROMCMD_ALARM = 0xEC"
definition W1_ROMCMD_SKIP :: u8 where "W1_ROMCMD_SKIP = 0xCC"
definition W1_FUNC_PARASITE_POWER :: u8 where "W1_FUNC_PARASITE_POWER = 0xB4"

subsection \<open>Checksum\<close>

text \<open>
  One pass of the inner loop of \<^verbatim>\<open>crc8\<close>: bit \<open>j\<close> of the data byte against bit 0 of
  the remainder, the remainder shifted right, the polynomial folded in when the two
  bits differ.
\<close>

definition crc8_bit :: "u8 \<Rightarrow> u8 \<Rightarrow> nat \<Rightarrow> u8 \<Rightarrow> u8" where
  "crc8_bit polynomial byte j remainder =
     (let data_bit_j = drop_bit j byte AND BV 0;
          rem_bit_0 = remainder AND BV 0;
          remainder = drop_bit 1 remainder
      in if data_bit_j XOR rem_bit_0 \<noteq> 0 then remainder XOR polynomial else remainder)"

text \<open>
  \<^verbatim>\<open>crc8(crcIn, polynomial, data, size)\<close>.  \<open>data\<close> is the array the pointer argument
  refers to, given by its index function; the loops run \<open>i\<close> over \<open>0..size-1\<close> and
  \<open>j\<close> over \<open>0..7\<close>.
\<close>

definition crc8 :: "u8 \<Rightarrow> u8 \<Rightarrow> (nat \<Rightarrow> u8) \<Rightarrow> u8 \<Rightarrow> u8" where
  "crc8 crcIn polynomial data size' =
     fold (\<lambda>i remainder. fold (crc8_bit polynomial (data i)) [0..<8] remainder)
       [0..<unat size'] crcIn"

subsection \<open>Line driver\<close>

text \<open>
  \<^verbatim>\<open>wire1Hold\<close> and \<^verbatim>\<open>wire1Release\<close> write the port registers; the \<^verbatim>\<open>sbic\<close> and
  \<^verbatim>\<open>sbis\<close> instructions of the inline assembly read the pin once (\<open>True\<close>: the bit
  is set, the line is high).
\<close>

definition wire1Hold :: "'e driver \<Rightarrow> 'e w1 \<Rightarrow> 'e w1" where
  "wire1Hold d s = s\<lparr>line := drv_hold d (line s)\<rparr>"

definition wire1Release :: "'e driver \<Rightarrow> 'e w1 \<Rightarrow> 'e w1" where
  "wire1Release d s = s\<lparr>line := drv_release d (line s)\<rparr>"

definition read_pin :: "'e driver \<Rightarrow> 'e w1 \<Rightarrow> bool \<times> 'e w1" where
  "read_pin d s = (let (pin, e) = drv_pin d (line s) in (pin, s\<lparr>line := e\<rparr>))"

text \<open>
  The loop of \<^verbatim>\<open>wire1Poll4Hold\<close> and \<^verbatim>\<open>wire1Poll4Release\<close>, entered with
  \<open>count = Suc c\<close>: \<^verbatim>\<open>subi count, 1\<close>, one pin read, and \<^verbatim>\<open>brne loop\<close> taken while the
  pin is not at the level \<open>lvl\<close> waited for and the count is not 0.  The result is the
  count at the exit.  The assembly enters the loop only with a count that is not 0
  (\<^verbatim>\<open>tst\<close>, \<^verbatim>\<open>breq done\<close>), so the first equation is never used.
\<close>

fun poll_loop :: "'e driver \<Rightarrow> bool \<Rightarrow> nat \<Rightarrow> 'e w1 \<Rightarrow> nat \<times> 'e w1" where
  "poll_loop d lvl 0 s = (0, s)"
| "poll_loop d lvl (Suc c) s =
     (let (pin, s') = read_pin d s
      in if pin \<noteq> lvl \<and> c \<noteq> 0 then poll_loop d lvl c s' else (c, s'))"

text \<open>
  After the loop: \<^verbatim>\<open>brne done\<close> keeps \<open>nloops\<close> when the count is not 0, otherwise
  \<^verbatim>\<open>clr nloops\<close>; then \<^verbatim>\<open>sub nloops, count\<close>.
\<close>

definition poll :: "'e driver \<Rightarrow> bool \<Rightarrow> u8 \<Rightarrow> 'e w1 \<Rightarrow> u8 \<times> 'e w1" where
  "poll d lvl nloops s =
     (if nloops = 0 then (0, s)
      else let (count, s') = poll_loop d lvl (unat nloops) s
           in (if count \<noteq> 0 then nloops - of_nat count else 0, s'))"

definition wire1Poll4Hold :: "'e driver \<Rightarrow> u8 \<Rightarrow> 'e w1 \<Rightarrow> u8 \<times> 'e w1" where
  "wire1Poll4Hold d nloops s = poll d False nloops s"

definition wire1Poll4Release :: "'e driver \<Rightarrow> u8 \<Rightarrow> 'e w1 \<Rightarrow> u8 \<times> 'e w1" where
  "wire1Poll4Release d nloops s = poll d True nloops s"

subsection \<open>Bit and byte transfer\<close>

text \<open>\<^verbatim>\<open>sbis port, pin\<close> followed by \<^verbatim>\<open>inc bittest\<close>: count one more low sample.\<close>

definition sample_low :: "'e driver \<Rightarrow> u8 \<times> 'e w1 \<Rightarrow> u8 \<times> 'e w1" where
  "sample_low d x =
     (let (pin, s') = read_pin d (snd x) in (if pin then fst x else fst x + 1, s'))"

text \<open>The sampling loop of \<^verbatim>\<open>wire1ReadBit\<close>: six samples per pass, \<open>i\<close> passes.\<close>

fun supersample :: "'e driver \<Rightarrow> nat \<Rightarrow> u8 \<times> 'e w1 \<Rightarrow> u8 \<times> 'e w1" where
  "supersample d 0 x = x"
| "supersample d (Suc i) x =
     supersample d i
       (sample_low d (sample_low d (sample_low d (sample_low d (sample_low d (sample_low d x))))))"

definition wire1ReadBit :: "'e driver \<Rightarrow> 'e w1 \<Rightarrow> u8 \<times> 'e w1" where
  "wire1ReadBit d s =
     (let s = wire1Hold d s;
          s = wire1Release d s;
          (bittest, s) = supersample d 4 (0, s)
      in (if bittest > 0 then 0 else 0xFF, s))"

definition wire1WriteBit :: "'e driver \<Rightarrow> u8 \<Rightarrow> 'e w1 \<Rightarrow> 'e w1" where
  "wire1WriteBit d bit' s =
     (let s = wire1Hold d s
      in if bit' \<noteq> 0
         then (let s = wire1Release d s in snd (wire1Poll4Hold d 15 s))
         else (let s = snd (wire1Poll4Release d 15 s) in wire1Release d s))"

definition wire1ReadByte :: "'e driver \<Rightarrow> 'e w1 \<Rightarrow> u8 \<times> 'e w1" where
  "wire1ReadByte d s =
     fold (\<lambda>i (readByte, s).
             let (b, s') = wire1ReadBit d s
             in (if b \<noteq> 0 then readByte OR BV i else readByte, s'))
       [0..<8] (0, s)"

definition wire1WriteByte :: "'e driver \<Rightarrow> u8 \<Rightarrow> 'e w1 \<Rightarrow> 'e w1" where
  "wire1WriteByte d writeByte s =
     fold (\<lambda>i s. wire1WriteBit d (writeByte AND BV i) s) [0..<8] s"

subsection \<open>Reset and presence\<close>

text \<open>
  The loop of \<^verbatim>\<open>wire1Poll4Idle\<close>,
  \<^verbatim>\<open>for (i = 0; !wire1ReadBit() && i < wire1_idleloops; i++);\<close>
  the read slot comes first in the condition, so it is issued on every test.
\<close>

function poll4idle_loop :: "'e driver \<Rightarrow> u16 \<Rightarrow> 'e w1 \<Rightarrow> u16 \<times> 'e w1" where
  "poll4idle_loop d i s =
     (let (b, s') = wire1ReadBit d s
      in if b = 0 \<and> i < wire1_idleloops s' then poll4idle_loop d (i + 1) s' else (i, s'))"
  by pat_completeness auto
termination
proof (relation "measure (\<lambda>(d, i, s). unat (wire1_idleloops s) - unat i)")
  show "wf (measure (\<lambda>(d :: 'e driver, i :: u16, s :: 'e w1). unat (wire1_idleloops s) - unat i))"
    by simp
next
  fix d :: "'e driver" and i :: u16 and s :: "'e w1" and x b s'
  assume x: "x = wire1ReadBit d s" and bs: "(b, s') = x"
    and c: "b = 0 \<and> i < wire1_idleloops s'"
  have pin: "\<And>t. wire1_idleloops (snd (read_pin d t)) = wire1_idleloops t"
    by (simp add: read_pin_def split: prod.split)
  have smp: "\<And>y. wire1_idleloops (snd (sample_low d y)) = wire1_idleloops (snd y)"
    by (simp add: sample_low_def pin split: prod.split)
      (metis pin snd_conv)
  have sup: "\<And>n y. wire1_idleloops (snd (supersample d n y)) = wire1_idleloops (snd y)"
  proof -
    fix n y show "wire1_idleloops (snd (supersample d n y)) = wire1_idleloops (snd y)"
      by (induction n arbitrary: y) (simp_all add: smp)
  qed
  have "wire1_idleloops (snd (wire1ReadBit d s)) = wire1_idleloops s"
    by (simp add: wire1ReadBit_def wire1Hold_def wire1Release_def Let_def sup
        split: prod.split) (metis sup snd_conv select_convs(2) surjective update_convs(3))
  with x bs have same: "wire1_idleloops s' = wire1_idleloops s"
    by (metis snd_conv)
  from c same have lt: "i < wire1_idleloops s" by simp
  then have ui: "unat i < unat (wire1_idleloops s)"
    by (simp add: word_less_nat_alt)
  have "unat (wire1_idleloops s) < 2 ^ 16"
    using unsigned_less [of "wire1_idleloops s", where ?'a = nat] by simp
  with ui have "unat i + 1 < 2 ^ 16" by simp
  then have "unat (i + 1) = Suc (unat i)"
    by (simp add: unat_word_ariths)
  with ui show "((d, i + 1, s'), d, i, s)
      \<in> measure (\<lambda>(d, i, s). unat (wire1_idleloops s) - unat i)"
    using same by simp
qed

declare poll4idle_loop.simps [simp del]

definition wire1Poll4Idle :: "'e driver \<Rightarrow> 'e w1 \<Rightarrow> u16 \<times> 'e w1" where
  "wire1Poll4Idle d s =
     (let (i, s) = poll4idle_loop d 0 s
      in if i = wire1_idleloops s then (0, s) else (i, s\<lparr>wire1state := IDLE\<rparr>))"

definition wire1SetupPoll4Idle :: "u16 \<Rightarrow> 'e w1 \<Rightarrow> 'e w1" where
  "wire1SetupPoll4Idle nloops s = s\<lparr>wire1state := WAIT_POLL, wire1_idleloops := nloops\<rparr>"

definition wire1GetState :: "'e w1 \<Rightarrow> wire1state_t" where
  "wire1GetState s = wire1state s"

text \<open>
  \<^verbatim>\<open>wire1Reset\<close>.  The first test is
  \<^verbatim>\<open>wire1state == WAIT_POLL && !wire1Poll4Idle()\<close>: the poll runs only in the state
  \<open>WAIT_POLL\<close>.
\<close>

definition wire1Reset :: "'e driver \<Rightarrow> 'e w1 \<Rightarrow> int \<times> 'e w1" where
  "wire1Reset d s =
     (let (busy, s) =
            (if wire1state s = WAIT_POLL
             then (let (n, s') = wire1Poll4Idle d s in (n = 0, s'))
             else (False, s))
      in if busy then (- 1, s)
         else
           let s = wire1Hold d s;
               s = snd (wire1Poll4Release d 122 s);
               s = wire1Release d s;
               (present, s) = wire1Poll4Hold d 15 s
           in if present = 0 then (0, s\<lparr>wire1state := IDLE\<rparr>)
              else
                let (released, s) = wire1Poll4Release d 60 s
                in if released = 0 then (- 1, s\<lparr>wire1state := IDLE\<rparr>)
                   else
                     let (held, s) = wire1Poll4Hold d 58 s
                     in if held \<noteq> 0 then (- 2, s\<lparr>wire1state := IDLE\<rparr>)
                        else (1, s\<lparr>wire1state := ROM_COMMAND\<rparr>))"

subsection \<open>Address search\<close>

text \<open>\<^verbatim>\<open>maskBitInArray(arr, bit)\<close> is \<^verbatim>\<open>arr[bit/8] & BV(bit%8)\<close>.\<close>

definition maskBitInArray :: "(nat \<Rightarrow> u8) \<Rightarrow> nat \<Rightarrow> u8 \<Rightarrow> u8" where
  "maskBitInArray mem arr bit' = mem (arr + unat bit' div 8) AND BV (unat bit' mod 8)"

text \<open>
  The choice made on a conflict (both read slots low), lines 350-364: the bit to write
  and the conflict position to keep.  \<open>lastConfPos\<close> is a \<^verbatim>\<open>uint8_t\<close>; in the two
  comparisons it is promoted to \<^verbatim>\<open>int\<close>, so it is compared by its value \<open>uint\<close>.
\<close>

definition resolve_conflict ::
  "(nat \<Rightarrow> u8) \<Rightarrow> nat \<Rightarrow> u8 \<Rightarrow> nat \<Rightarrow> int \<Rightarrow> u8 \<times> int" where
  "resolve_conflict mem addrStart lastConfPos iBit currConfPos =
     (if int iBit = uint lastConfPos then (1, currConfPos)
      else if uint lastConfPos = - 1 then (0, currConfPos)
      else (maskBitInArray mem addrStart (of_nat iBit),
            if maskBitInArray mem addrStart (of_nat iBit) = 0 then int iBit else currConfPos))"

text \<open>\<^verbatim>\<open>addrOut[iByte] |= BV(iBit%8)\<close>.\<close>

definition set_out_bit :: "nat \<Rightarrow> u8 \<Rightarrow> nat \<Rightarrow> 'e w1 \<Rightarrow> 'e w1" where
  "set_out_bit addrOut iByte iBit s =
     s\<lparr>ram := (ram s)(addrOut + unat iByte :=
            ram s (addrOut + unat iByte) OR BV (iBit mod 8))\<rparr>"

text \<open>
  The head of the loop body: on the first bit of a byte, \<^verbatim>\<open>iByte++\<close> (a \<^verbatim>\<open>uint8_t\<close>
  that starts at 255) and \<^verbatim>\<open>addrOut[iByte] = 0\<close>.
\<close>

definition next_byte :: "nat \<Rightarrow> nat \<Rightarrow> u8 \<Rightarrow> 'e w1 \<Rightarrow> u8 \<times> 'e w1" where
  "next_byte addrOut iBit iByte s =
     (if iBit mod 8 = 0
      then (iByte + 1, s\<lparr>ram := (ram s)(addrOut + unat (iByte + 1) := 0)\<rparr>)
      else (iByte, s))"

text \<open>
  One pass of the loop over the 64 bits.  The loop variables that live across passes
  are \<open>currConfPos\<close> and \<open>iByte\<close>.  \<open>Inl\<close> is the \<^verbatim>\<open>return -128\<close> from inside the loop.
\<close>

definition search_bit ::
  "'e driver \<Rightarrow> nat \<Rightarrow> nat \<Rightarrow> u8 \<Rightarrow> nat \<Rightarrow> int \<times> u8 \<Rightarrow> 'e w1
     \<Rightarrow> (int \<times> 'e w1) + ((int \<times> u8) \<times> 'e w1)" where
  "search_bit d addrOut addrStart lastConfPos iBit loc s =
     (let currConfPos = fst loc;
          (iByte, s) = next_byte addrOut iBit (snd loc) s;
          (addrAck, s) = wire1ReadBit d s;
          (addrNAck, s) = wire1ReadBit d s
      in if addrAck = 0 \<and> addrNAck = 0
         then
           let (writeBit, currConfPos) =
                 resolve_conflict (ram s) addrStart lastConfPos iBit currConfPos;
               s = (if writeBit \<noteq> 0 then set_out_bit addrOut iByte iBit s else s);
               s = wire1WriteBit d writeBit s
           in Inr ((currConfPos, iByte), s)
         else if addrAck \<noteq> 0 \<and> addrNAck \<noteq> 0 then Inl (- 128, s)
         else
           let s = wire1WriteBit d addrAck s;
               s = (if addrAck \<noteq> 0 then set_out_bit addrOut iByte iBit s else s)
           in Inr ((currConfPos, iByte), s))"

text \<open>
  \<^verbatim>\<open>for (int iBit = 0; iBit < 64; iBit++)\<close>: \<open>search_loop ... iBit n\<close> runs the \<open>n\<close>
  passes \<open>iBit, ..., iBit + n - 1\<close>; the whole loop is \<open>search_loop ... 0 64\<close>.
\<close>

primrec search_loop ::
  "'e driver \<Rightarrow> nat \<Rightarrow> nat \<Rightarrow> u8 \<Rightarrow> nat \<Rightarrow> nat \<Rightarrow> int \<times> u8 \<Rightarrow> 'e w1
     \<Rightarrow> (int \<times> 'e w1) + ((int \<times> u8) \<times> 'e w1)" where
  "search_loop d addrOut addrStart lastConfPos iBit 0 loc s = Inr (loc, s)"
| "search_loop d addrOut addrStart lastConfPos iBit (Suc n) loc s =
     (case search_bit d addrOut addrStart lastConfPos iBit loc s of
        Inl r \<Rightarrow> Inl r
      | Inr (loc', s') \<Rightarrow> search_loop d addrOut addrStart lastConfPos (Suc iBit) n loc' s')"

text \<open>The array a pointer refers to.\<close>

definition array_at :: "(nat \<Rightarrow> u8) \<Rightarrow> nat \<Rightarrow> nat \<Rightarrow> u8" where
  "array_at mem p i = mem (p + i)"

text \<open>Lines 380-389: the checksum test after the loop.\<close>

definition search_finish :: "nat \<Rightarrow> int \<Rightarrow> 'e w1 \<Rightarrow> int \<times> 'e w1" where
  "search_finish addrOut currConfPos s =
     (if ram s (addrOut + W1_ADDR_BYTE_CRC) = crc8 0 W1_CRC_POLYNOMIAL (array_at (ram s) addrOut) 7
      then (currConfPos, s\<lparr>wire1state := FUNCTION_COMMAND\<rparr>)
      else (- 1, s\<lparr>wire1state := IDLE\<rparr>))"

definition wire1Search :: "'e driver \<Rightarrow> nat \<Rightarrow> nat \<Rightarrow> u8 \<Rightarrow> u8 \<Rightarrow> 'e w1 \<Rightarrow> int \<times> 'e w1" where
  "wire1Search d addrOut addrStart lastConfPos rom_command s =
     (let (r, s) = wire1Reset d s
      in if r \<noteq> 1 then (- 1, s)
         else
           let s = wire1WriteByte d rom_command s
           in case search_loop d addrOut addrStart lastConfPos 0 64 (64, - 1) s of
                Inl res \<Rightarrow> res
              | Inr ((currConfPos, iByte), s) \<Rightarrow> search_finish addrOut currConfPos s)"

definition wire1SearchLargerROM :: "'e driver \<Rightarrow> nat \<Rightarrow> nat \<Rightarrow> u8 \<Rightarrow> 'e w1 \<Rightarrow> int \<times> 'e w1" where
  "wire1SearchLargerROM d addrOut addrStart lastConfPos s =
     wire1Search d addrOut addrStart lastConfPos W1_ROMCMD_SEARCH s"

definition wire1AlarmSearchLargerROM ::
  "'e driver \<Rightarrow> nat \<Rightarrow> nat \<Rightarrow> u8 \<Rightarrow> 'e w1 \<Rightarrow> int \<times> 'e w1" where
  "wire1AlarmSearchLargerROM d addrOut addrStart lastConfPos s =
     wire1Search d addrOut addrStart lastConfPos W1_ROMCMD_ALARM s"

subsection \<open>ROM and function commands\<close>

definition wire1ReadSingleROM :: "'e driver \<Rightarrow> nat \<Rightarrow> 'e w1 \<Rightarrow> int \<times> 'e w1" where
  "wire1ReadSingleROM d addr s =
     (let s = snd (wire1Reset d s)
      in if wire1state s \<noteq> ROM_COMMAND then (- 1, s)
         else
           let s = wire1WriteByte d W1_ROMCMD_READ s;
               s = fold (\<lambda>i s. let (b, s') = wire1ReadByte d s
                                in s'\<lparr>ram := (ram s')(addr + i := b)\<rparr>) [0..<8] s
           in if ram s (addr + W1_ADDR_BYTE_CRC)
                   = crc8 0 W1_CRC_POLYNOMIAL (array_at (ram s) addr) 7
              then (0, s\<lparr>wire1state := FUNCTION_COMMAND\<rparr>)
              else (1, s\<lparr>wire1state := IDLE\<rparr>))"

definition wire1MatchROM :: "'e driver \<Rightarrow> nat \<Rightarrow> 'e w1 \<Rightarrow> int \<times> 'e w1" where
  "wire1MatchROM d addr s =
     (let s = snd (wire1Reset d s)
      in if wire1state s \<noteq> ROM_COMMAND then (- 1, s)
         else
           let s = wire1WriteByte d W1_ROMCMD_MATCH s;
               s = fold (\<lambda>i s. wire1WriteByte d (ram s (addr + i)) s) [0..<8] s
           in (0, s\<lparr>wire1state := FUNCTION_COMMAND\<rparr>))"

definition wire1SkipROM :: "'e driver \<Rightarrow> 'e w1 \<Rightarrow> int \<times> 'e w1" where
  "wire1SkipROM d s =
     (let s = snd (wire1Reset d s)
      in if wire1state s \<noteq> ROM_COMMAND then (- 1, s)
         else
           let s = wire1WriteByte d W1_ROMCMD_SKIP s
           in (0, s\<lparr>wire1state := FUNCTION_COMMAND\<rparr>))"

text \<open>\<^verbatim>\<open>parasite_power = !wire1ReadBit()\<close> is 1 when the read slot gave 0.\<close>

definition wire1ReadPowerSupply :: "'e driver \<Rightarrow> 'e w1 \<Rightarrow> int \<times> 'e w1" where
  "wire1ReadPowerSupply d s =
     (if wire1state s \<noteq> FUNCTION_COMMAND then (- 2, s)
      else
        let s = wire1WriteByte d W1_FUNC_PARASITE_POWER s;
            (b, s) = wire1ReadBit d s;
            parasite_power = (if b = 0 then 1 else 0)
        in (parasite_power, s\<lparr>wire1state := IDLE\<rparr>))"

section \<open>A simulated bus\<close>

text \<open>
  Modelled from the spec: the simulated bus of the spec's testable properties (a bus
  with a fixed set of compliant slaves, an empty bus, a loopback slave) is not part of
  the sources.  It is a driver for the functions above, built from what the spec says
  of the protocol (sections 4.2 to 4.4): slaves answer a reset with a presence pulse,
  a low line from any slave dominates, and in a search every participating slave sends
  its address bit, then the complement, and stays in the conversation only if the bit
  the master writes back is its own.

  Time is counted in pin reads.  The master holding the line for 100 reads or more is
  a reset; a slot in which the master releases before the first read carries a 1 (or
  is a read slot), a slot it holds longer carries a 0.  After a reset the slaves wait
  5 reads, pull the line low for 30 reads and then expect a ROM command.
\<close>

type_synonym rom = "u8 list"

text \<open>Bit \<open>i\<close> (0-63) of an address: bit \<open>i mod 8\<close> of byte \<open>i div 8\<close>.\<close>

definition rom_bit :: "rom \<Rightarrow> nat \<Rightarrow> bool" where
  "rom_bit r i = bit (r ! (i div 8)) (i mod 8)"

datatype slave_phase =
    Quiet
  | Presence nat
  | Command "bool list"
  | Search nat
  | Match nat
  | Selected
  | EchoRecv "bool list"
  | EchoSend "bool list"

record simbus =
  roms :: "rom list"
  active :: "rom list"
  phase :: slave_phase
  master_low :: bool
  low_ticks :: nat
  pulling :: bool

text \<open>
  Whether some slave pulls the line low in the slot that starts now.  In a search,
  slot \<open>k\<close> belongs to address bit \<open>k div 3\<close>: the bit itself (\<open>k mod 3 = 0\<close>), its
  complement (\<open>k mod 3 = 1\<close>), and the master's choice (\<open>k mod 3 = 2\<close>).
\<close>

definition slaves_pull :: "simbus \<Rightarrow> bool" where
  "slaves_pull b =
     (case phase b of
        Search k \<Rightarrow>
          if k mod 3 = 0 then list_ex (\<lambda>r. \<not> rom_bit r (k div 3)) (active b)
          else if k mod 3 = 1 then list_ex (\<lambda>r. rom_bit r (k div 3)) (active b)
          else False
      | EchoSend bs \<Rightarrow> (case bs of [] \<Rightarrow> False | x # _ \<Rightarrow> \<not> x)
      | _ \<Rightarrow> False)"

definition sim_hold :: "simbus \<Rightarrow> simbus" where
  "sim_hold b =
     (if master_low b then b
      else b\<lparr>master_low := True, low_ticks := 0, pulling := slaves_pull b\<rparr>)"

text \<open>The ROM command byte, received least significant bit first.\<close>

definition rom_command_phase :: "bool list \<Rightarrow> slave_phase" where
  "rom_command_phase bits =
     (let byte = (horner_sum of_bool 2 bits :: u8)
      in if byte = 0xF0 then Search 0
         else if byte = 0x55 then Match 0
         else if byte = 0xCC then Selected
         else Quiet)"

text \<open>The end of a slot that carried the bit \<open>one\<close> (or was a read slot).\<close>

definition slot_end :: "bool \<Rightarrow> simbus \<Rightarrow> simbus" where
  "slot_end one b =
     (let b' = b\<lparr>master_low := False, low_ticks := 0\<rparr>
      in case phase b of
           Command bits \<Rightarrow>
             (if length bits < 7 then b'\<lparr>phase := Command (bits @ [one])\<rparr>
              else b'\<lparr>phase := rom_command_phase (bits @ [one])\<rparr>)
         | Search k \<Rightarrow>
             (if k mod 3 = 2
              then b'\<lparr>active := filter (\<lambda>r. rom_bit r (k div 3) = one) (active b),
                      phase := (if k div 3 = 63 then Selected else Search (Suc k))\<rparr>
              else b'\<lparr>phase := Search (Suc k)\<rparr>)
         | Match k \<Rightarrow>
             b'\<lparr>active := filter (\<lambda>r. rom_bit r k = one) (active b),
                phase := (if k = 63 then Selected else Match (Suc k))\<rparr>
         | EchoRecv bits \<Rightarrow>
             (if length bits < 7 then b'\<lparr>phase := EchoRecv (bits @ [one])\<rparr>
              else b'\<lparr>phase := EchoSend (bits @ [one])\<rparr>)
         | EchoSend bits \<Rightarrow>
             (if length bits \<le> 1 then b'\<lparr>phase := EchoRecv []\<rparr>
              else b'\<lparr>phase := EchoSend (tl bits)\<rparr>)
         | _ \<Rightarrow> b')"

definition sim_release :: "simbus \<Rightarrow> simbus" where
  "sim_release b =
     (if \<not> master_low b then b
      else if 100 \<le> low_ticks b
      then b\<lparr>master_low := False, low_ticks := 0, pulling := False, active := roms b,
             phase := (if roms b = [] then Quiet else Presence 0)\<rparr>
      else slot_end (low_ticks b = 0) b)"

text \<open>One pin read: the level of the line, and the time that passes.\<close>

definition sim_tick :: "simbus \<Rightarrow> simbus" where
  "sim_tick b =
     (if master_low b then b\<lparr>low_ticks := Suc (low_ticks b)\<rparr>
      else case phase b of
             Presence n \<Rightarrow>
               (if Suc n < 5 then b\<lparr>phase := Presence (Suc n)\<rparr>
                else if Suc n < 35 then b\<lparr>phase := Presence (Suc n), pulling := True\<rparr>
                else b\<lparr>phase := Command [], pulling := False\<rparr>)
           | _ \<Rightarrow> b)"

definition sim_pin :: "simbus \<Rightarrow> bool \<times> simbus" where
  "sim_pin b = (\<not> master_low b \<and> \<not> pulling b, sim_tick b)"

definition sim_driver :: "simbus driver" where
  "sim_driver = \<lparr>drv_hold = sim_hold, drv_release = sim_release, drv_pin = sim_pin\<rparr>"

text \<open>A bus at rest with the slaves \<open>rs\<close> attached, and the machine in front of it.\<close>

definition sim_bus :: "rom list \<Rightarrow> simbus" where
  "sim_bus rs =
     \<lparr>roms = rs, active = [], phase = Quiet, master_low = False, low_ticks = 0,
      pulling = False\<rparr>"

definition machine :: "wire1state_t \<Rightarrow> u16 \<Rightarrow> 'e \<Rightarrow> (nat \<Rightarrow> u8) \<Rightarrow> 'e w1" where
  "machine st n e mem = \<lparr>wire1state = st, wire1_idleloops = n, line = e, ram = mem\<rparr>"

text \<open>
  A line driver that records the calls made to it, on a line that nobody pulls low:
  the mock driver of the spec's testable properties.
\<close>

datatype line_op = Hold | Release | ReadPin

definition mock_driver :: "line_op list driver" where
  "mock_driver =
     \<lparr>drv_hold = (\<lambda>l. l @ [Hold]), drv_release = (\<lambda>l. l @ [Release]),
      drv_pin = (\<lambda>l. (True, l @ [ReadPin]))\<rparr>"

section \<open>Notions used in the statements and proofs\<close>

text \<open>\<open>s'\<close> differs from \<open>s\<close> at most in the line: both globals and the RAM are the same.\<close>

definition line_only :: "'e w1 \<Rightarrow> 'e w1 \<Rightarrow> bool" where
  "line_only s s' =
     (wire1state s' = wire1state s \<and> wire1_idleloops s' = wire1_idleloops s \<and> ram s' = ram s)"

text \<open>The slaves are in the middle of their presence sequence.\<close>

fun waiting :: "slave_phase \<Rightarrow> bool" where
  "waiting (Presence n) = True"
| "waiting p = False"

text \<open>
  What a whole slot does to the simulated bus, when it starts with the line at rest:
  the slaves decide whether to pull the line, and the slot ends carrying \<open>one\<close>.
\<close>

definition sim_slot :: "bool \<Rightarrow> simbus \<Rightarrow> simbus" where
  "sim_slot one b = slot_end one (b\<lparr>pulling := slaves_pull b\<rparr>)"

definition at_rest :: "simbus \<Rightarrow> bool" where
  "at_rest b = (\<not> master_low b \<and> low_ticks b = 0 \<and> \<not> waiting (phase b))"

text \<open>The simulated bus at rest: the master has released the line between two slots.\<close>

definition bus :: "rom list \<Rightarrow> rom list \<Rightarrow> slave_phase \<Rightarrow> bool \<Rightarrow> simbus" where
  "bus rs act ph pl =
     \<lparr>roms = rs, active = act, phase = ph, master_low = False, low_ticks = 0, pulling = pl\<rparr>"

text \<open>What holds when pass \<open>k\<close> of the loop is about to start.\<close>

definition pass_inv :: "nat \<Rightarrow> nat \<Rightarrow> int \<times> u8 \<Rightarrow> 'e w1 \<Rightarrow> bool" where
  "pass_inv aO k loc s =
     (snd loc = (if k = 0 then - 1 else of_nat ((k - 1) div 8)) \<and>
      (fst loc = 64 \<or> (0 \<le> fst loc \<and> fst loc < int k)) \<and>
      (k mod 8 = 0 \<or> (\<forall>j\<ge>k mod 8. \<not> bit (ram s (aO + k div 8)) j)))"

(*DEFS-END*)
section \<open>Checksum properties\<close>

lemma crc8_bit_self:
  "crc8_bit polynomial r j (drop_bit j r) = drop_bit (Suc j) r"
proof -
  have "drop_bit j r AND BV 0 XOR drop_bit j r AND BV 0 = 0"
    by simp
  then show ?thesis
    by (simp add: crc8_bit_def Let_def drop_bit_drop_bit)
qed

lemma crc8_byte_self:
  "fold (crc8_bit polynomial r) [0..<8] (r :: u8) = 0"
proof -
  have upt8: "[0..<8] = [0, Suc 0, 2, 3, 4, 5, 6, 7]"
    by (simp add: upt_rec)
  have step: "\<And>j. crc8_bit polynomial r j (drop_bit j r) = drop_bit (Suc j) r"
    by (rule crc8_bit_self)
  have "fold (crc8_bit polynomial r) [0..<8] (drop_bit 0 r) = drop_bit 8 r"
    unfolding upt8
    using step [of 0] step [of 1] step [of 2] step [of 3] step [of 4]
      step [of 5] step [of 6] step [of 7]
    by (simp add: eval_nat_numeral)
  moreover have "drop_bit 8 r = 0"
    by (rule bit_eqI) (simp add: bit_simps)
  ultimately show ?thesis by simp
qed

lemma crc8_cong:
  "(\<And>i. i < unat n \<Longrightarrow> data i = data' i) \<Longrightarrow>
     crc8 crcIn polynomial data n = crc8 crcIn polynomial data' n"
  unfolding crc8_def by (rule fold_cong) auto

lemma crc8_Suc:
  "unat m = Suc n \<Longrightarrow>
     crc8 crcIn polynomial data m =
       fold (crc8_bit polynomial (data n)) [0..<8] (crc8 crcIn polynomial data (of_nat n))"
proof -
  assume a: "unat m = Suc n"
  have "n < 2 ^ 8"
    using unsigned_less [of m, where ?'a = nat] a by simp
  then have "unat (of_nat n :: u8) = n"
    by (simp add: unat_of_nat)
  then show ?thesis
    by (simp add: crc8_def a)
qed

text \<open>
  C2.  For every seed and every payload in bytes 0-6 of an array, storing
  \<^verbatim>\<open>crc8(seed, 0x8C, payload, 7)\<close> in byte 7 and computing \<^verbatim>\<open>crc8\<close> with the same seed
  and polynomial over all 8 bytes gives 0.
\<close>

theorem crc8_self_check:
  "crc8 seed W1_CRC_POLYNOMIAL (payload(7 := crc8 seed W1_CRC_POLYNOMIAL payload 7)) 8 = 0"
proof -
  let ?c = "crc8 seed W1_CRC_POLYNOMIAL payload 7"
  have "crc8 seed W1_CRC_POLYNOMIAL (payload(7 := ?c)) 8 =
      fold (crc8_bit W1_CRC_POLYNOMIAL ?c) [0..<8]
        (crc8 seed W1_CRC_POLYNOMIAL (payload(7 := ?c)) 7)"
    using crc8_Suc [of 8 7 seed W1_CRC_POLYNOMIAL "payload(7 := ?c)"] by simp
  also have "crc8 seed W1_CRC_POLYNOMIAL (payload(7 := ?c)) 7 = ?c"
    by (rule crc8_cong) simp
  finally show ?thesis
    by (simp only: crc8_byte_self)
qed

section \<open>What the transfer functions leave alone\<close>

lemma line_only_refl [simp]: "line_only s s"
  by (simp add: line_only_def)

lemma line_only_upd [simp]: "line_only s (s\<lparr>line := e\<rparr>)"
  by (simp add: line_only_def)

lemma line_only_trans: "line_only s t \<Longrightarrow> line_only t u \<Longrightarrow> line_only s u"
  by (simp add: line_only_def)

lemma line_onlyD:
  "line_only s s' \<Longrightarrow> wire1state s' = wire1state s \<and> wire1_idleloops s' = wire1_idleloops s \<and> ram s' = ram s"
  by (simp add: line_only_def)

lemma line_only_eq: "line_only s s' \<Longrightarrow> s' = s\<lparr>line := line s'\<rparr>"
  by (simp add: line_only_def)

lemma line_only_hold [simp]: "line_only s (wire1Hold d s)"
  by (simp add: wire1Hold_def)

lemma line_only_release [simp]: "line_only s (wire1Release d s)"
  by (simp add: wire1Release_def)

lemma line_only_read_pin [simp]: "line_only s (snd (read_pin d s))"
  by (simp add: read_pin_def split: prod.split)

lemma line_only_poll_loop: "line_only s (snd (poll_loop d lvl n s))"
proof (induction n arbitrary: s)
  case 0
  then show ?case by simp
next
  case (Suc n)
  have a: "line_only s (snd (read_pin d s))" by simp
  show ?case
    using line_only_trans [OF a Suc.IH [of "snd (read_pin d s)"]] a
    by (simp add: split_beta Let_def)
qed

lemma line_only_poll: "line_only s (snd (poll d lvl n s))"
  by (simp add: poll_def split_beta Let_def line_only_poll_loop)

lemma line_only_sample_low: "line_only (snd x) (snd (sample_low d x))"
  by (simp add: sample_low_def split_beta Let_def)

lemma line_only_supersample: "line_only (snd x) (snd (supersample d n x))"
proof (induction n arbitrary: x)
  case 0
  then show ?case by simp
next
  case (Suc n)
  let ?s6 = "sample_low d (sample_low d (sample_low d (sample_low d (sample_low d (sample_low d x)))))"
  have "line_only (snd x) (snd ?s6)"
    by (meson line_only_sample_low line_only_trans)
  then show ?case
    using Suc.IH [of ?s6] by (simp add: line_only_trans)
qed

lemma line_only_ReadBit: "line_only s (snd (wire1ReadBit d s))"
proof -
  have "line_only (wire1Release d (wire1Hold d s))
      (snd (supersample d 4 (0, wire1Release d (wire1Hold d s))))"
    using line_only_supersample [of "(0, wire1Release d (wire1Hold d s))" d 4] by simp
  moreover have "line_only s (wire1Release d (wire1Hold d s))"
    by (meson line_only_hold line_only_release line_only_trans)
  ultimately show ?thesis
    by (simp add: wire1ReadBit_def Let_def split_beta line_only_trans)
qed

lemma line_only_WriteBit: "line_only s (wire1WriteBit d v s)"
proof -
  have "line_only s (snd (poll d False 15 (wire1Release d (wire1Hold d s))))"
    by (meson line_only_trans line_only_hold line_only_release line_only_poll)
  moreover have "line_only s (wire1Release d (snd (poll d True 15 (wire1Hold d s))))"
    by (meson line_only_trans line_only_hold line_only_release line_only_poll)
  ultimately show ?thesis
    by (simp add: wire1WriteBit_def Let_def wire1Poll4Hold_def wire1Poll4Release_def)
qed

lemma line_only_WriteByte: "line_only s (wire1WriteByte d v s)"
proof -
  have "line_only s (fold (\<lambda>i s. wire1WriteBit d (v AND BV i) s) xs s)" for xs
    by (induction xs arbitrary: s) (auto intro: line_only_trans [OF line_only_WriteBit])
  then show ?thesis by (simp add: wire1WriteByte_def)
qed

lemma line_only_ReadByte_step:
  "line_only (snd x)
     (snd ((\<lambda>(readByte, s).
             let (b, s') = wire1ReadBit d s
             in (if b \<noteq> 0 then readByte OR BV i else readByte, s')) x))"
  using line_only_ReadBit [of "snd x" d]
  by (simp add: split_beta Let_def)

lemma line_only_fold:
  assumes "\<And>i x. line_only (snd x) (snd (f i x))"
  shows "line_only (snd x) (snd (fold f xs x))"
proof (induction xs arbitrary: x)
  case Nil
  show ?case by simp
next
  case (Cons a xs)
  have "line_only (snd x) (snd (f a x))" by (rule assms)
  moreover have "line_only (snd (f a x)) (snd (fold f xs (f a x)))" by (rule Cons.IH)
  ultimately show ?case by (simp add: line_only_trans)
qed

lemma line_only_ReadByte: "line_only s (snd (wire1ReadByte d s))"
  unfolding wire1ReadByte_def
  using line_only_fold [where x = "(0, s)", OF line_only_ReadByte_step] by simp

lemma line_only_poll4idle_loop: "line_only s (snd (poll4idle_loop d i s))"
proof (induction d i s rule: poll4idle_loop.induct)
  case (1 d i s)
  have a: "line_only s (snd (wire1ReadBit d s))" by (rule line_only_ReadBit)
  show ?case
  proof (cases "fst (wire1ReadBit d s) = 0 \<and> i < wire1_idleloops (snd (wire1ReadBit d s))")
    case True
    then have "line_only (snd (wire1ReadBit d s))
        (snd (poll4idle_loop d (i + 1) (snd (wire1ReadBit d s))))"
      using "1.IH" [OF prod.collapse] by simp
    with a have "line_only s (snd (poll4idle_loop d (i + 1) (snd (wire1ReadBit d s))))"
      by (rule line_only_trans)
    with True show ?thesis
      by (subst poll4idle_loop.simps) (simp add: split_beta Let_def)
  next
    case False
    with a show ?thesis
      by (subst poll4idle_loop.simps) (auto simp add: split_beta Let_def)
  qed
qed

lemma Poll4Idle_state:
  "wire1state (snd (wire1Poll4Idle d s)) = wire1state s \<or>
   wire1state (snd (wire1Poll4Idle d s)) = IDLE"
  using line_onlyD [OF line_only_poll4idle_loop [of s d 0]]
  by (simp add: wire1Poll4Idle_def split_beta Let_def)

lemma Poll4Idle_ram:
  "ram (snd (wire1Poll4Idle d s)) = ram s"
  using line_onlyD [OF line_only_poll4idle_loop [of s d 0]]
  by (simp add: wire1Poll4Idle_def split_beta Let_def)

lemma Reset_state_iff:
  "wire1state (snd (wire1Reset d s)) = ROM_COMMAND \<longleftrightarrow> fst (wire1Reset d s) = 1"
proof (cases "wire1state s = WAIT_POLL")
  case True
  with Poll4Idle_state [of d s] show ?thesis
    by (auto simp add: wire1Reset_def split_beta Let_def)
next
  case False
  then show ?thesis
    by (auto simp add: wire1Reset_def split_beta Let_def)
qed

lemma Reset_ram: "ram (snd (wire1Reset d s)) = ram s"
proof -
  have p: "\<And>lvl n t. ram (snd (poll d lvl n t)) = ram t"
    using line_onlyD [OF line_only_poll] by blast
  have h: "\<And>t. ram (wire1Hold d t) = ram t" by (simp add: wire1Hold_def)
  have r: "\<And>t. ram (wire1Release d t) = ram t" by (simp add: wire1Release_def)
  show ?thesis
    by (simp add: wire1Reset_def split_beta Let_def wire1Poll4Hold_def wire1Poll4Release_def
        p h r Poll4Idle_ram)
qed

section \<open>Commands issued out of phase\<close>

text \<open>
  C5.  In every session state other than \<open>FUNCTION_COMMAND\<close>, \<^verbatim>\<open>wire1ReadPowerSupply\<close>
  returns -2 and returns the state as it was: the session state is unchanged and so is
  the line, whatever the driver, so no hold, release or pin read (hence no read or
  write slot) was made.
\<close>

theorem ReadPowerSupply_out_of_phase:
  "wire1state s \<noteq> FUNCTION_COMMAND \<Longrightarrow> wire1ReadPowerSupply d s = (- 2, s)"
  by (simp add: wire1ReadPowerSupply_def)

theorem ReadPowerSupply_out_of_phase_witness:
  "wire1state (machine ROM_COMMAND 0 [] (\<lambda>a. 0)) \<noteq> FUNCTION_COMMAND \<and>
   wire1ReadPowerSupply mock_driver (machine ROM_COMMAND 0 [] (\<lambda>a. 0))
     = (- 2, machine ROM_COMMAND 0 [] (\<lambda>a. 0)) \<and>
   line (snd (wire1ReadPowerSupply mock_driver (machine ROM_COMMAND 0 [] (\<lambda>a. 0)))) = []"
  using ReadPowerSupply_out_of_phase [of "machine ROM_COMMAND 0 [] (\<lambda>a. 0)" mock_driver]
  by (simp add: machine_def)

section \<open>The conflict branch of the search\<close>

text \<open>
  C10.  \<open>lastConfPos\<close> is unsigned, so it never compares equal to -1; on a conflict at
  a bit index other than \<open>lastConfPos\<close> the choice is therefore always the one read
  from the start address (the branch that writes 0 for an uninitialised position is
  dead).
\<close>

theorem lastConfPos_never_minus_one:
  "uint (lastConfPos :: u8) \<noteq> - 1 \<and>
   (int iBit \<noteq> uint lastConfPos \<longrightarrow>
      resolve_conflict mem addrStart lastConfPos iBit currConfPos =
        (maskBitInArray mem addrStart (of_nat iBit),
         if maskBitInArray mem addrStart (of_nat iBit) = 0 then int iBit else currConfPos))"
proof -
  have "0 \<le> uint lastConfPos" by simp
  then have "uint lastConfPos \<noteq> - 1" by linarith
  then show ?thesis by (simp add: resolve_conflict_def)
qed

theorem lastConfPos_never_minus_one_witness:
  "int 3 \<noteq> uint (255 :: u8) \<and>
   resolve_conflict (\<lambda>a. 0) 8 255 3 64 = (maskBitInArray (\<lambda>a. 0) 8 3, 3)"
  using lastConfPos_never_minus_one [of 255 3 "\<lambda>a. 0" 8 64]
  by (simp add: maskBitInArray_def)

section \<open>Slots on the simulated bus\<close>

lemma sim_driver_simps [simp]:
  "drv_hold sim_driver = sim_hold" "drv_release sim_driver = sim_release"
  "drv_pin sim_driver = sim_pin"
  by (simp_all add: sim_driver_def)

lemma read_pin_sim:
  "read_pin sim_driver s =
     (\<not> master_low (line s) \<and> \<not> pulling (line s), s\<lparr>line := sim_tick (line s)\<rparr>)"
  by (simp add: read_pin_def sim_pin_def)

lemma sim_tick_rest:
  "\<not> master_low b \<Longrightarrow> \<not> waiting (phase b) \<Longrightarrow> sim_tick b = b"
  by (cases "phase b") (simp_all add: sim_tick_def)

lemma poll_loop_held:
  "master_low (line s) \<Longrightarrow>
     poll_loop sim_driver True (Suc n) s =
       (0, s\<lparr>line := (line s)\<lparr>low_ticks := low_ticks (line s) + Suc n\<rparr>\<rparr>)"
proof (induction n arbitrary: s)
  case 0
  then show ?case
    by (simp add: read_pin_sim sim_tick_def)
next
  case (Suc n)
  let ?s' = "s\<lparr>line := sim_tick (line s)\<rparr>"
  have m: "master_low (line ?s')" using Suc.prems by (simp add: sim_tick_def)
  have "poll_loop sim_driver True (Suc (Suc n)) s = poll_loop sim_driver True (Suc n) ?s'"
    using Suc.prems by (simp add: read_pin_sim)
  also have "\<dots> = (0, ?s'\<lparr>line := (line ?s')\<lparr>low_ticks := low_ticks (line ?s') + Suc n\<rparr>\<rparr>)"
    by (rule Suc.IH [OF m])
  finally show ?case
    using Suc.prems by (simp add: sim_tick_def)
qed

lemma poll_loop_high:
  assumes "\<not> master_low (line s)" "\<not> pulling (line s)" "\<not> waiting (phase (line s))"
  shows "poll_loop sim_driver False (Suc n) s = (0, s)"
proof (induction n)
  case 0
  show ?case using assms by (simp add: read_pin_sim sim_tick_rest)
next
  case (Suc n)
  have "poll_loop sim_driver False (Suc (Suc n)) s = poll_loop sim_driver False (Suc n) s"
    using assms
    by (subst poll_loop.simps) (simp add: read_pin_sim sim_tick_rest del: poll_loop.simps)
  with Suc.IH show ?case by simp
qed

lemma poll_held:
  "master_low (line s) \<Longrightarrow> n \<noteq> 0 \<Longrightarrow>
     snd (poll sim_driver True n s) = s\<lparr>line := (line s)\<lparr>low_ticks := low_ticks (line s) + unat n\<rparr>\<rparr>"
proof -
  assume a: "master_low (line s)" and n: "n \<noteq> 0"
  then obtain k where k: "unat n = Suc k"
    by (metis not0_implies_Suc unat_eq_zero)
  show ?thesis using poll_loop_held [OF a, of k] n k by (simp add: poll_def)
qed

lemma poll_high:
  "\<not> master_low (line s) \<Longrightarrow> \<not> pulling (line s) \<Longrightarrow> \<not> waiting (phase (line s)) \<Longrightarrow>
     poll sim_driver False n s = (0, s)"
proof (cases "n = 0")
  case True
  then show ?thesis by (simp add: poll_def)
next
  case False
  assume a: "\<not> master_low (line s)" "\<not> pulling (line s)" "\<not> waiting (phase (line s))"
  from False obtain k where k: "unat n = Suc k"
    by (metis not0_implies_Suc unat_eq_zero)
  show ?thesis using poll_loop_high [OF a, of k] False k by (simp add: poll_def)
qed

lemma sample_low_rest:
  "\<not> master_low (line s) \<Longrightarrow> \<not> waiting (phase (line s)) \<Longrightarrow>
     sample_low sim_driver (k, s) = (if pulling (line s) then k + 1 else k, s)"
  by (simp add: sample_low_def read_pin_sim sim_tick_rest)

lemma supersample_rest:
  "\<not> master_low (line s) \<Longrightarrow> \<not> waiting (phase (line s)) \<Longrightarrow>
     supersample sim_driver 4 (0, s) = (if pulling (line s) then 24 else 0, s)"
  by (cases "pulling (line s)") (simp_all add: eval_nat_numeral sample_low_rest)

lemma slot_end_not_waiting:
  "\<not> waiting (phase b) \<Longrightarrow> \<not> waiting (phase (slot_end one b))"
  by (cases "phase b") (simp_all add: slot_end_def Let_def rom_command_phase_def)

lemma slot_end_fields:
  "\<not> master_low (slot_end one b) \<and> low_ticks (slot_end one b) = 0 \<and>
   pulling (slot_end one b) = pulling b \<and> roms (slot_end one b) = roms b"
  by (cases "phase b") (simp_all add: slot_end_def Let_def)

lemma slot_end_forget:
  "slot_end one (b\<lparr>master_low := m, low_ticks := k, pulling := p\<rparr>) =
     slot_end one (b\<lparr>pulling := p\<rparr>)"
  by (cases "phase b") (simp_all add: slot_end_def Let_def)

lemma at_rest_slot: "at_rest b \<Longrightarrow> at_rest (sim_slot one b)"
  using slot_end_fields [of one "b\<lparr>pulling := slaves_pull b\<rparr>"]
    slot_end_not_waiting [of "b\<lparr>pulling := slaves_pull b\<rparr>" one]
  by (simp add: at_rest_def sim_slot_def)

lemma ReadBit_sim:
  assumes "at_rest (line s)"
  shows "wire1ReadBit sim_driver s =
           (if slaves_pull (line s) then 0 else 0xFF, s\<lparr>line := sim_slot True (line s)\<rparr>)"
proof -
  let ?b = "line s"
  have h: "wire1Release sim_driver (wire1Hold sim_driver s) = s\<lparr>line := sim_slot True ?b\<rparr>"
    using assms
    by (simp add: wire1Release_def wire1Hold_def sim_hold_def sim_release_def
        at_rest_def sim_slot_def slot_end_forget)
  have r: "at_rest (sim_slot True ?b)" using assms by (rule at_rest_slot)
  have p: "pulling (sim_slot True ?b) = slaves_pull ?b"
    using slot_end_fields [of True "?b\<lparr>pulling := slaves_pull ?b\<rparr>"] by (simp add: sim_slot_def)
  have "supersample sim_driver 4 (0, s\<lparr>line := sim_slot True ?b\<rparr>) =
      (if slaves_pull ?b then 24 else 0, s\<lparr>line := sim_slot True ?b\<rparr>)"
    using supersample_rest [of "s\<lparr>line := sim_slot True ?b\<rparr>"] r p by (simp add: at_rest_def)
  then show ?thesis
    by (simp add: wire1ReadBit_def Let_def h)
qed

lemma WriteBit_sim:
  assumes "at_rest (line s)" and "\<not> slaves_pull (line s)"
  shows "wire1WriteBit sim_driver v s = s\<lparr>line := sim_slot (v \<noteq> 0) (line s)\<rparr>"
proof (cases "v = 0")
  case True
  let ?b = "line s"
  let ?h = "?b\<lparr>master_low := True, low_ticks := 0, pulling := False\<rparr>"
  have h: "wire1Hold sim_driver s = s\<lparr>line := ?h\<rparr>"
    using assms by (simp add: wire1Hold_def sim_hold_def at_rest_def)
  have "snd (poll sim_driver True 15 (s\<lparr>line := ?h\<rparr>)) =
      s\<lparr>line := ?b\<lparr>master_low := True, low_ticks := 15, pulling := False\<rparr>\<rparr>"
    using poll_held [of "s\<lparr>line := ?h\<rparr>" 15] by simp
  then show ?thesis
    using True assms
    by (simp add: wire1WriteBit_def Let_def h wire1Poll4Release_def wire1Release_def
        sim_release_def sim_slot_def slot_end_forget)
next
  case False
  let ?b = "line s"
  have h: "wire1Release sim_driver (wire1Hold sim_driver s) = s\<lparr>line := sim_slot True ?b\<rparr>"
    using assms
    by (simp add: wire1Release_def wire1Hold_def sim_hold_def sim_release_def
        at_rest_def sim_slot_def slot_end_forget)
  have r: "at_rest (sim_slot True ?b)" using assms(1) by (rule at_rest_slot)
  have p: "\<not> pulling (sim_slot True ?b)"
    using slot_end_fields [of True "?b\<lparr>pulling := slaves_pull ?b\<rparr>"] assms(2)
    by (simp add: sim_slot_def)
  have "poll sim_driver False 15 (s\<lparr>line := sim_slot True ?b\<rparr>) = (0, s\<lparr>line := sim_slot True ?b\<rparr>)"
    using poll_high [of "s\<lparr>line := sim_slot True ?b\<rparr>" 15] r p by (simp add: at_rest_def)
  then show ?thesis
    using False by (simp add: wire1WriteBit_def Let_def h wire1Poll4Hold_def)
qed

lemma poll_loop_numeral:
  "poll_loop d lvl (numeral k) s =
     (let (pin, s') = read_pin d s
      in if pin \<noteq> lvl \<and> pred_numeral k \<noteq> 0 then poll_loop d lvl (pred_numeral k) s'
         else (pred_numeral k, s'))"
  by (simp add: numeral_eq_Suc)

lemma at_rest_bus [simp]: "at_rest (bus rs act ph pl) = (\<not> waiting ph)"
  by (simp add: at_rest_def bus_def)

lemma bus_fields [simp]:
  "roms (bus rs act ph pl) = rs" "active (bus rs act ph pl) = act"
  "phase (bus rs act ph pl) = ph" "pulling (bus rs act ph pl) = pl"
  "master_low (bus rs act ph pl) = False" "low_ticks (bus rs act ph pl) = 0"
  by (simp_all add: bus_def)

lemma at_rest_eq: "at_rest b \<Longrightarrow> b = bus (roms b) (active b) (phase b) (pulling b)"
  by (cases b) (simp add: at_rest_def bus_def)

lemma slaves_pull_bus:
  "slaves_pull (bus rs act ph pl) =
     (case ph of
        Search k \<Rightarrow>
          if k mod 3 = 0 then list_ex (\<lambda>r. \<not> rom_bit r (k div 3)) act
          else if k mod 3 = 1 then list_ex (\<lambda>r. rom_bit r (k div 3)) act
          else False
      | EchoSend bs \<Rightarrow> (case bs of [] \<Rightarrow> False | x # _ \<Rightarrow> \<not> x)
      | _ \<Rightarrow> False)"
  by (cases ph) (simp_all add: slaves_pull_def bus_def)

lemma sim_reset_release:
  "sim_release (b\<lparr>master_low := True, low_ticks := 122, pulling := p\<rparr>) =
     bus (roms b) (roms b) (if roms b = [] then Quiet else Presence 0) False"
  by (cases b) (simp add: sim_release_def bus_def)

lemma Reset_sim_present:
  assumes "wire1state s \<noteq> WAIT_POLL" and "\<not> master_low (line s)" and "roms (line s) \<noteq> []"
  shows "wire1Reset sim_driver s =
           (1, s\<lparr>wire1state := ROM_COMMAND,
                 line := bus (roms (line s)) (roms (line s)) (Command []) False\<rparr>)"
proof -
  let ?b = "line s"
  let ?rs = "roms ?b"
  have h: "wire1Hold sim_driver s =
      s\<lparr>line := ?b\<lparr>master_low := True, low_ticks := 0, pulling := slaves_pull ?b\<rparr>\<rparr>"
    using assms by (simp add: wire1Hold_def sim_hold_def)
  have p: "snd (wire1Poll4Release sim_driver 122 (wire1Hold sim_driver s)) =
      s\<lparr>line := ?b\<lparr>master_low := True, low_ticks := 122, pulling := slaves_pull ?b\<rparr>\<rparr>"
    unfolding h wire1Poll4Release_def
    using poll_held [of "s\<lparr>line := ?b\<lparr>master_low := True, low_ticks := 0,
      pulling := slaves_pull ?b\<rparr>\<rparr>" 122]
    by simp
  have r: "wire1Release sim_driver (snd (wire1Poll4Release sim_driver 122 (wire1Hold sim_driver s)))
      = s\<lparr>line := bus ?rs ?rs (Presence 0) False\<rparr>"
    unfolding p using assms by (simp add: wire1Release_def sim_reset_release)
  have p1: "wire1Poll4Hold sim_driver 15 (s\<lparr>line := bus ?rs ?rs (Presence 0) False\<rparr>) =
      (6, s\<lparr>line := bus ?rs ?rs (Presence 6) True\<rparr>)"
    by (simp add: wire1Poll4Hold_def poll_def poll_loop_numeral read_pin_sim sim_tick_def bus_def)
  have p2: "wire1Poll4Release sim_driver 60 (s\<lparr>line := bus ?rs ?rs (Presence 6) True\<rparr>) =
      (30, s\<lparr>line := bus ?rs ?rs (Command []) False\<rparr>)"
    by (simp add: wire1Poll4Release_def poll_def poll_loop_numeral read_pin_sim sim_tick_def bus_def)
  have p3: "wire1Poll4Hold sim_driver 58 (s\<lparr>line := bus ?rs ?rs (Command []) False\<rparr>) =
      (0, s\<lparr>line := bus ?rs ?rs (Command []) False\<rparr>)"
    unfolding wire1Poll4Hold_def by (rule poll_high) simp_all
  show ?thesis
    using assms(1) by (simp add: wire1Reset_def Let_def r p1 p2 p3)
qed

lemma Reset_sim_empty:
  assumes "wire1state s \<noteq> WAIT_POLL" and "\<not> master_low (line s)" and "roms (line s) = []"
  shows "wire1Reset sim_driver s =
           (0, s\<lparr>wire1state := IDLE, line := bus [] [] Quiet False\<rparr>)"
proof -
  let ?b = "line s"
  have h: "wire1Hold sim_driver s =
      s\<lparr>line := ?b\<lparr>master_low := True, low_ticks := 0, pulling := slaves_pull ?b\<rparr>\<rparr>"
    using assms by (simp add: wire1Hold_def sim_hold_def)
  have p: "snd (wire1Poll4Release sim_driver 122 (wire1Hold sim_driver s)) =
      s\<lparr>line := ?b\<lparr>master_low := True, low_ticks := 122, pulling := slaves_pull ?b\<rparr>\<rparr>"
    unfolding h wire1Poll4Release_def
    using poll_held [of "s\<lparr>line := ?b\<lparr>master_low := True, low_ticks := 0,
      pulling := slaves_pull ?b\<rparr>\<rparr>" 122]
    by simp
  have r: "wire1Release sim_driver (snd (wire1Poll4Release sim_driver 122 (wire1Hold sim_driver s)))
      = s\<lparr>line := bus [] [] Quiet False\<rparr>"
    unfolding p using assms by (simp add: wire1Release_def sim_reset_release)
  have p1: "wire1Poll4Hold sim_driver 15 (s\<lparr>line := bus [] [] Quiet False\<rparr>) =
      (0, s\<lparr>line := bus [] [] Quiet False\<rparr>)"
    unfolding wire1Poll4Hold_def by (rule poll_high) simp_all
  show ?thesis
    using assms(1) by (simp add: wire1Reset_def Let_def r p1)
qed

lemma slot_Command:
  "sim_slot one (bus rs act (Command bits) pl) =
     (if length bits < 7 then bus rs act (Command (bits @ [one])) False
      else bus rs act (rom_command_phase (bits @ [one])) False)"
  by (simp add: sim_slot_def slot_end_def slaves_pull_def bus_def)

lemma slot_Search:
  "sim_slot one (bus rs act (Search k) pl) =
     (if k mod 3 = 0 then bus rs act (Search (Suc k)) (list_ex (\<lambda>r. \<not> rom_bit r (k div 3)) act)
      else if k mod 3 = 1 then bus rs act (Search (Suc k)) (list_ex (\<lambda>r. rom_bit r (k div 3)) act)
      else bus rs (filter (\<lambda>r. rom_bit r (k div 3) = one) act)
             (if k div 3 = 63 then Selected else Search (Suc k)) False)"
proof -
  consider "k mod 3 = 0" | "k mod 3 = 1" | "k mod 3 = 2" by linarith
  then show ?thesis
    by cases (simp_all add: sim_slot_def slot_end_def slaves_pull_def bus_def)
qed


lemma slot_EchoRecv:
  "sim_slot one (bus rs act (EchoRecv bits) pl) =
     (if length bits < 7 then bus rs act (EchoRecv (bits @ [one])) False
      else bus rs act (EchoSend (bits @ [one])) False)"
  by (simp add: sim_slot_def slot_end_def slaves_pull_def bus_def)

lemma slot_EchoSend:
  "sim_slot one (bus rs act (EchoSend (x # bits)) pl) =
     (if bits = [] then bus rs act (EchoRecv []) (\<not> x)
      else bus rs act (EchoSend bits) (\<not> x))"
  by (cases bits) (simp_all add: sim_slot_def slot_end_def slaves_pull_def bus_def)

lemma slot_Selected:
  "sim_slot one (bus rs act Selected pl) = bus rs act Selected False"
  by (simp add: sim_slot_def slot_end_def slaves_pull_def bus_def)

lemma slot_Quiet:
  "sim_slot one (bus rs act Quiet pl) = bus rs act Quiet False"
  by (simp add: sim_slot_def slot_end_def slaves_pull_def bus_def)

lemma upt8: "[0..<8] = [0, 1, 2, 3, 4, 5, 6, 7]"
  by (simp add: upt_rec)

lemma and_BV: "(v AND BV i \<noteq> 0) = bit v i"
  by (simp add: BV_def push_bit_of_1 and_exp_eq_0_iff_not_bit)

text \<open>A write slot on the simulated bus, when the slaves are listening.\<close>

lemma WriteBit_bus:
  "\<not> waiting ph \<Longrightarrow> \<not> slaves_pull (bus rs act ph pl) \<Longrightarrow>
     wire1WriteBit sim_driver v (s\<lparr>line := bus rs act ph pl\<rparr>) =
       s\<lparr>line := sim_slot (v \<noteq> 0) (bus rs act ph pl)\<rparr>"
  using WriteBit_sim [of "s\<lparr>line := bus rs act ph pl\<rparr>" v] by simp

lemma ReadBit_bus:
  "\<not> waiting ph \<Longrightarrow>
     wire1ReadBit sim_driver (s\<lparr>line := bus rs act ph pl\<rparr>) =
       (if slaves_pull (bus rs act ph pl) then 0 else 0xFF,
        s\<lparr>line := sim_slot True (bus rs act ph pl)\<rparr>)"
  using ReadBit_sim [of "s\<lparr>line := bus rs act ph pl\<rparr>"] by simp

lemma WriteByte_Command:
  "wire1WriteByte sim_driver v (s\<lparr>line := bus rs act (Command []) pl\<rparr>) =
     s\<lparr>line := bus rs act (rom_command_phase (map (bit v) [0..<8])) False\<rparr>"
  by (simp add: wire1WriteByte_def upt8 WriteBit_bus slaves_pull_bus slot_Command and_BV)

lemma rom_command_phase_search: "rom_command_phase (map (bit (0xF0 :: u8)) [0..<8]) = Search 0"
  by (simp add: upt8 rom_command_phase_def)


lemma rom_command_phase_skip: "rom_command_phase (map (bit (0xCC :: u8)) [0..<8]) = Selected"
  by (simp add: upt8 rom_command_phase_def)

lemma WriteByte_EchoRecv:
  "wire1WriteByte sim_driver v (s\<lparr>line := bus rs act (EchoRecv []) pl\<rparr>) =
     s\<lparr>line := bus rs act (EchoSend (map (bit v) [0..<8])) False\<rparr>"
  by (simp add: wire1WriteByte_def upt8 WriteBit_bus slaves_pull_bus slot_EchoRecv and_BV)

lemma rb_val:
  "(if (if \<not> x then (0 :: u8) else 0xFF) \<noteq> 0 then r OR BV i else r) = r OR push_bit i (of_bool x)"
  by (cases x) (simp_all add: BV_def)

lemma ReadByte_EchoSend:
  "wire1ReadByte sim_driver
       (s\<lparr>line := bus rs act (EchoSend [b0, b1, b2, b3, b4, b5, b6, b7]) pl\<rparr>) =
     (horner_sum of_bool 2 [b0, b1, b2, b3, b4, b5, b6, b7],
      s\<lparr>line := bus rs act (EchoRecv []) (\<not> b7)\<rparr>)"
  by (simp add: wire1ReadByte_def upt8 ReadBit_bus slaves_pull_bus slot_EchoSend rb_val)

section \<open>Byte transfer\<close>

text \<open>
  C9.  On the simulated bus with a loopback slave (one that takes in a byte and then
  sends it back), \<^verbatim>\<open>wire1WriteByte(b)\<close> delivers the bits of \<open>b\<close> in the order bit 0,
  bit 1, ..., bit 7; \<^verbatim>\<open>wire1ReadByte\<close> returns the byte whose bit \<open>i\<close> is the \<open>i\<close>-th bit
  read; and a write followed by a read returns \<open>b\<close>.
\<close>

theorem byte_loopback:
  "wire1WriteByte sim_driver b (machine st n (bus rs act (EchoRecv []) pl) mem)
     = machine st n (bus rs act (EchoSend (map (bit b) [0..<8])) False) mem \<and>
   wire1ReadByte sim_driver
     (machine st n (bus rs act (EchoSend [b0, b1, b2, b3, b4, b5, b6, b7]) pl) mem)
     = (horner_sum of_bool 2 [b0, b1, b2, b3, b4, b5, b6, b7],
        machine st n (bus rs act (EchoRecv []) (\<not> b7)) mem) \<and>
   fst (wire1ReadByte sim_driver
          (wire1WriteByte sim_driver b (machine st n (bus rs act (EchoRecv []) pl) mem))) = b"
proof -
  let ?s = "machine st n (bus rs act (EchoRecv []) pl) mem"
  have m: "\<And>e e'. (machine st n e mem)\<lparr>line := e'\<rparr> = machine st n e' mem"
    by (simp add: machine_def)
  have w: "wire1WriteByte sim_driver b ?s
      = machine st n (bus rs act (EchoSend (map (bit b) [0..<8])) False) mem"
    using WriteByte_EchoRecv [where v = b and s = ?s and rs = rs and act = act and pl = pl]
    by (simp add: m)
  have r: "\<And>c0 c1 c2 c3 c4 c5 c6 c7 q. wire1ReadByte sim_driver
      (machine st n (bus rs act (EchoSend [c0, c1, c2, c3, c4, c5, c6, c7]) q) mem)
     = (horner_sum of_bool 2 [c0, c1, c2, c3, c4, c5, c6, c7],
        machine st n (bus rs act (EchoRecv []) (\<not> c7)) mem)"
  proof -
    fix c0 c1 c2 c3 c4 c5 c6 c7 q
    show "wire1ReadByte sim_driver
      (machine st n (bus rs act (EchoSend [c0, c1, c2, c3, c4, c5, c6, c7]) q) mem)
     = (horner_sum of_bool 2 [c0, c1, c2, c3, c4, c5, c6, c7],
        machine st n (bus rs act (EchoRecv []) (\<not> c7)) mem)"
      using ReadByte_EchoSend [where s = "machine st n (bus rs act (EchoRecv []) q) mem"
          and rs = rs and act = act and ?b0.0 = c0 and ?b1.0 = c1 and ?b2.0 = c2 and ?b3.0 = c3
          and ?b4.0 = c4 and ?b5.0 = c5 and ?b6.0 = c6 and ?b7.0 = c7 and pl = q]
      by (simp only: m)
  qed
  have "fst (wire1ReadByte sim_driver (wire1WriteByte sim_driver b ?s))
      = horner_sum of_bool 2 (map (bit b) [0..<8])"
    unfolding w upt8 by (simp only: list.map r fst_conv)
  also have "\<dots> = take_bit 8 b"
    by (rule horner_sum_bit_eq_take_bit)
  also have "\<dots> = b"
    by (rule take_bit_word_eq_self) simp
  finally show ?thesis
    using w r by blast
qed

section \<open>ROM commands on the simulated bus\<close>









lemma SkipROM_sim:
  assumes "wire1state s \<noteq> WAIT_POLL" and "\<not> master_low (line s)" and "roms (line s) \<noteq> []"
  shows "wire1SkipROM sim_driver s =
           (0, s\<lparr>wire1state := FUNCTION_COMMAND,
                 line := bus (roms (line s)) (roms (line s)) Selected False\<rparr>)"
proof -
  let ?rs = "roms (line s)"
  let ?s1 = "s\<lparr>wire1state := ROM_COMMAND\<rparr>"
  have w: "wire1WriteByte sim_driver W1_ROMCMD_SKIP (?s1\<lparr>line := bus ?rs ?rs (Command []) False\<rparr>)
      = ?s1\<lparr>line := bus ?rs ?rs Selected False\<rparr>"
    by (simp add: WriteByte_Command W1_ROMCMD_SKIP_def rom_command_phase_skip)
  have r: "wire1Reset sim_driver s = (1, ?s1\<lparr>line := bus ?rs ?rs (Command []) False\<rparr>)"
    using Reset_sim_present [OF assms] by simp
  show ?thesis
    unfolding wire1SkipROM_def r Let_def snd_conv
    using w by simp
qed

lemma sim_bus_eq: "sim_bus rs = bus rs [] Quiet False"
  by (simp add: sim_bus_def bus_def)

lemma machine_fields [simp]:
  "wire1state (machine st n e mem) = st" "wire1_idleloops (machine st n e mem) = n"
  "line (machine st n e mem) = e" "ram (machine st n e mem) = mem"
  by (simp_all add: machine_def)

lemma machine_line_upd [simp]: "(machine st n e mem)\<lparr>line := e'\<rparr> = machine st n e' mem"
  by (simp add: machine_def)

lemma machine_state_upd [simp]: "(machine st n e mem)\<lparr>wire1state := st'\<rparr> = machine st' n e mem"
  by (simp add: machine_def)

lemma read_pin_mock:
  "read_pin mock_driver s = (True, s\<lparr>line := line s @ [ReadPin]\<rparr>)"
  by (simp add: read_pin_def mock_driver_def)

lemma mock_driver_simps [simp]:
  "drv_hold mock_driver = (\<lambda>l. l @ [Hold])" "drv_release mock_driver = (\<lambda>l. l @ [Release])"
  by (simp_all add: mock_driver_def)

lemma Reset_mock:
  "wire1Reset mock_driver (machine IDLE 0 [] mem) =
     (0, machine IDLE 0
           [Hold, ReadPin, Release, ReadPin, ReadPin, ReadPin, ReadPin, ReadPin, ReadPin,
            ReadPin, ReadPin, ReadPin, ReadPin, ReadPin, ReadPin, ReadPin, ReadPin, ReadPin] mem)"
  by (simp add: wire1Reset_def wire1Hold_def wire1Release_def wire1Poll4Hold_def
      wire1Poll4Release_def poll_def poll_loop_numeral read_pin_mock Let_def)

section \<open>ROM commands and the session state\<close>

text \<open>
  C6 as the code has it.  \<^verbatim>\<open>wire1MatchROM\<close>, \<^verbatim>\<open>wire1SkipROM\<close> and
  \<^verbatim>\<open>wire1ReadSingleROM\<close> do not test the session state on entry: in every state each
  first runs \<^verbatim>\<open>wire1Reset\<close>, which drives the line.  When the reset does not report a
  presence (its result is not 1) each returns -1 in the state the reset left: nothing
  but the reset's own traffic has happened, no command byte is written and no byte is
  read.
\<close>

theorem rom_commands_reset_first:
  "fst (wire1Reset d s) \<noteq> 1 \<Longrightarrow>
     wire1MatchROM d addr s = (- 1, snd (wire1Reset d s)) \<and>
     wire1SkipROM d s = (- 1, snd (wire1Reset d s)) \<and>
     wire1ReadSingleROM d addr s = (- 1, snd (wire1Reset d s))"
  using Reset_state_iff [of d s]
  by (simp add: wire1MatchROM_def wire1SkipROM_def wire1ReadSingleROM_def Let_def)

theorem rom_commands_reset_first_witness:
  "fst (wire1Reset mock_driver (machine IDLE 0 [] (\<lambda>a. 0))) \<noteq> 1 \<and>
   wire1MatchROM mock_driver 0 (machine IDLE 0 [] (\<lambda>a. 0))
     = (- 1, snd (wire1Reset mock_driver (machine IDLE 0 [] (\<lambda>a. 0)))) \<and>
   wire1SkipROM mock_driver (machine IDLE 0 [] (\<lambda>a. 0))
     = (- 1, snd (wire1Reset mock_driver (machine IDLE 0 [] (\<lambda>a. 0)))) \<and>
   wire1ReadSingleROM mock_driver 0 (machine IDLE 0 [] (\<lambda>a. 0))
     = (- 1, snd (wire1Reset mock_driver (machine IDLE 0 [] (\<lambda>a. 0))))"
proof -
  have "fst (wire1Reset mock_driver (machine IDLE 0 [] (\<lambda>a. 0))) \<noteq> 1"
    by (simp add: Reset_mock)
  with rom_commands_reset_first [of mock_driver "machine IDLE 0 [] (\<lambda>a. 0)" 0]
  show ?thesis by blast
qed

text \<open>
  The claim as stated fails.  Started in the state \<open>IDLE\<close>, where no ROM command is
  legal, \<^verbatim>\<open>wire1SkipROM\<close> on a bus with one slave succeeds (result 0, state
  \<open>FUNCTION_COMMAND\<close>, the slave selected); and on a line without slaves
  \<^verbatim>\<open>wire1MatchROM\<close> fails only after the recording driver has seen a hold, a release
  and 16 pin reads.
\<close>

theorem rom_commands_out_of_phase_counterexample:
  "wire1state (machine IDLE 0 (sim_bus [[1, 0, 0, 0, 0, 0, 0, 61]]) (\<lambda>a. 0)) \<noteq> ROM_COMMAND \<and>
   wire1SkipROM sim_driver (machine IDLE 0 (sim_bus [[1, 0, 0, 0, 0, 0, 0, 61]]) (\<lambda>a. 0))
     = (0, machine FUNCTION_COMMAND 0
             (bus [[1, 0, 0, 0, 0, 0, 0, 61]] [[1, 0, 0, 0, 0, 0, 0, 61]] Selected False)
             (\<lambda>a. 0)) \<and>
   wire1state (machine IDLE 0 [] (\<lambda>a. 0)) \<noteq> ROM_COMMAND \<and>
   wire1MatchROM mock_driver 0 (machine IDLE 0 [] (\<lambda>a. 0))
     = (- 1, machine IDLE 0
           [Hold, ReadPin, Release, ReadPin, ReadPin, ReadPin, ReadPin, ReadPin, ReadPin,
            ReadPin, ReadPin, ReadPin, ReadPin, ReadPin, ReadPin, ReadPin, ReadPin, ReadPin]
           (\<lambda>a. 0))"
proof -
  let ?s = "machine IDLE 0 (sim_bus [[1, 0, 0, 0, 0, 0, 0, 61]]) (\<lambda>a. 0)"
  have "wire1SkipROM sim_driver ?s
     = (0, machine FUNCTION_COMMAND 0
             (bus [[1, 0, 0, 0, 0, 0, 0, 61]] [[1, 0, 0, 0, 0, 0, 0, 61]] Selected False)
             (\<lambda>a. 0))"
    using SkipROM_sim [of ?s] by (simp add: sim_bus_eq)
  moreover have "wire1MatchROM mock_driver 0 (machine IDLE 0 [] (\<lambda>a. 0))
     = (- 1, machine IDLE 0
           [Hold, ReadPin, Release, ReadPin, ReadPin, ReadPin, ReadPin, ReadPin, ReadPin,
            ReadPin, ReadPin, ReadPin, ReadPin, ReadPin, ReadPin, ReadPin, ReadPin, ReadPin]
           (\<lambda>a. 0))"
    by (simp add: wire1MatchROM_def Reset_mock)
  ultimately show ?thesis by simp
qed

section \<open>Addresses with a wrong checksum\<close>





section \<open>Reset on an empty bus\<close>

text \<open>
  On a bus without slaves, a reset issued from any state but \<open>WAIT_POLL\<close> returns 0
  and sets \<open>IDLE\<close> (\<open>Reset_sim_empty\<close> above).  After \<^verbatim>\<open>wire1SetupPoll4Idle(5)\<close> it does
  not: the first read slot of \<^verbatim>\<open>wire1Poll4Idle\<close> already finds the line idle, the loop
  ends with \<open>i = 0\<close>, this 0 is returned as the number of loops, and \<^verbatim>\<open>wire1Reset\<close>
  takes it for a timeout and returns -1 (C8).
\<close>

theorem Reset_WAIT_POLL_empty_bus:
  "wire1Reset sim_driver (wire1SetupPoll4Idle 5 (machine IDLE 0 (sim_bus []) (\<lambda>a. 0)))
     = (- 1, machine IDLE 5 (sim_bus []) (\<lambda>a. 0))"
proof -
  let ?s = "machine WAIT_POLL 5 (bus [] [] Quiet False) (\<lambda>a. 0)"
  have r: "wire1ReadBit sim_driver ?s = (0xFF, ?s)"
    using ReadBit_sim [of ?s] by (simp add: slaves_pull_bus slot_Quiet)
  have "poll4idle_loop sim_driver 0 ?s = (0, ?s)"
    by (subst poll4idle_loop.simps) (simp add: r)
  then have "wire1Poll4Idle sim_driver ?s = (0, machine IDLE 5 (bus [] [] Quiet False) (\<lambda>a. 0))"
    by (simp add: wire1Poll4Idle_def)
  then show ?thesis
    by (simp add: wire1Reset_def wire1SetupPoll4Idle_def sim_bus_eq machine_def)
qed

section \<open>The search loop, for every driver\<close>

lemma search_loop_append:
  "search_loop d aO aS l i (m + n) loc s =
     (case search_loop d aO aS l i m loc s of
        Inl r \<Rightarrow> Inl r
      | Inr (loc', s') \<Rightarrow> search_loop d aO aS l (i + m) n loc' s')"
proof (induction m arbitrary: i loc s)
  case 0
  then show ?case by simp
next
  case (Suc m)
  show ?case
  proof (cases "search_bit d aO aS l i loc s")
    case (Inl r)
    then show ?thesis by simp
  next
    case (Inr x)
    then show ?thesis
      using Suc.IH [of "Suc i" "fst x" "snd x"]
      by (cases x; cases "search_loop d aO aS l (Suc i) m (fst x) (snd x)") auto
  qed
qed

lemma search_loop_Suc_end:
  "search_loop d aO aS l 0 (Suc k) loc0 s0 =
     (case search_loop d aO aS l 0 k loc0 s0 of
        Inl r \<Rightarrow> Inl r
      | Inr (loc, s) \<Rightarrow> search_bit d aO aS l k loc s)"
proof -
  have "search_loop d aO aS l 0 (k + 1) loc0 s0 =
     (case search_loop d aO aS l 0 k loc0 s0 of
        Inl r \<Rightarrow> Inl r
      | Inr (loc', s') \<Rightarrow> search_loop d aO aS l (0 + k) 1 loc' s')"
    by (rule search_loop_append)
  then show ?thesis
    by (simp add: split_beta split: sum.splits)
qed

lemma ram_ReadBit: "ram (snd (wire1ReadBit d s)) = ram s"
  using line_onlyD [OF line_only_ReadBit] by blast

lemma ram_WriteBit: "ram (wire1WriteBit d v s) = ram s"
  using line_onlyD [OF line_only_WriteBit] by blast

lemma unat_byte_index: "k < 64 \<Longrightarrow> unat (of_nat (k div 8) :: u8) = k div 8"
  by (simp add: unat_of_nat)

lemma pred_div8:
  "k \<noteq> 0 \<Longrightarrow> k div 8 = (if k mod 8 = 0 then Suc ((k - 1) div 8) else (k - 1) div 8)"
  by (cases k) (simp_all add: div_Suc)

lemma next_byte_inv:
  assumes "pass_inv aO k loc s" and "k < 64"
  shows "fst (next_byte aO k (snd loc) s) = of_nat (k div 8) \<and>
         (\<forall>j\<ge>k mod 8. \<not> bit (ram (snd (next_byte aO k (snd loc) s)) (aO + k div 8)) j)"
proof (cases "k mod 8 = 0")
  case True
  have i: "snd loc + 1 = of_nat (k div 8)"
  proof (cases "k = 0")
    case True
    with assms show ?thesis by (simp add: pass_inv_def)
  next
    case False
    with True pred_div8 [of k] have "k div 8 = Suc ((k - 1) div 8)" by simp
    then have "(of_nat ((k - 1) div 8) :: u8) + 1 = of_nat (k div 8)"
      by simp
    with False assms show ?thesis by (simp add: pass_inv_def)
  qed
  show ?thesis
    using True assms(2) by (simp add: next_byte_def i unat_byte_index)
next
  case False
  then have "k \<noteq> 0" by auto
  with False pred_div8 [of k] have "(k - 1) div 8 = k div 8" by simp
  with \<open>k \<noteq> 0\<close> show ?thesis
    using False assms by (simp add: next_byte_def pass_inv_def)
qed

lemma bit_BV: "bit (BV n) j = (j = n \<and> n < 8)"
  by (auto simp add: BV_def bit_simps)

lemma search_bit_inv:
  assumes "pass_inv aO k loc s" and "k < 64"
    and "search_bit d aO aS l k loc s = Inr (loc', s')"
  shows "pass_inv aO (Suc k) loc' s'"
proof -
  obtain iByte s1 where nb: "next_byte aO k (snd loc) s = (iByte, s1)"
    by (cases "next_byte aO k (snd loc) s")
  from next_byte_inv [OF assms(1,2)] nb
  have ib: "iByte = of_nat (k div 8)"
    and z: "\<forall>j\<ge>k mod 8. \<not> bit (ram s1 (aO + k div 8)) j"
    by simp_all
  have u: "unat iByte = k div 8" using ib assms(2) by (simp add: unat_byte_index)
  obtain a s2 where r1: "wire1ReadBit d s1 = (a, s2)" by (cases "wire1ReadBit d s1")
  obtain n s3 where r2: "wire1ReadBit d s2 = (n, s3)" by (cases "wire1ReadBit d s2")
  have m3: "ram s3 = ram s1"
    using ram_ReadBit [of d s1] ram_ReadBit [of d s2] r1 r2 by simp
  have c: "fst loc = 64 \<or> (0 \<le> fst loc \<and> fst loc < int k)"
    using assms(1) by (simp add: pass_inv_def)
  have sb: "search_bit d aO aS l k loc s =
      (if a = 0 \<and> n = 0
       then Inr ((snd (resolve_conflict (ram s1) aS l k (fst loc)), iByte),
              wire1WriteBit d (fst (resolve_conflict (ram s1) aS l k (fst loc)))
                (if fst (resolve_conflict (ram s1) aS l k (fst loc)) \<noteq> 0
                 then set_out_bit aO iByte k s3 else s3))
       else if a \<noteq> 0 \<and> n \<noteq> 0 then Inl (- 128, s3)
       else Inr ((fst loc, iByte),
              if a \<noteq> 0 then set_out_bit aO iByte k (wire1WriteBit d a s3)
              else wire1WriteBit d a s3))"
    by (simp add: search_bit_def nb r1 r2 Let_def split_beta m3)
  have rc: "snd (resolve_conflict (ram s1) aS l k (fst loc)) = fst loc \<or>
      snd (resolve_conflict (ram s1) aS l k (fst loc)) = int k"
    by (simp add: resolve_conflict_def)
  have so: "\<And>t. ram (set_out_bit aO iByte k t) =
      (ram t)(aO + k div 8 := ram t (aO + k div 8) OR BV (k mod 8))"
    by (simp add: set_out_bit_def u)
  have conf: "fst loc' = fst loc \<or> fst loc' = int k" and ib': "snd loc' = iByte"
    and mem: "ram s' = ram s1 \<or>
        ram s' = (ram s1)(aO + k div 8 := ram s1 (aO + k div 8) OR BV (k mod 8))"
  proof -
    consider (c) "a = 0 \<and> n = 0" | (e) "a \<noteq> 0 \<and> n \<noteq> 0" | (f) "\<not> (a = 0 \<and> n = 0)" "\<not> (a \<noteq> 0 \<and> n \<noteq> 0)"
      by blast
    then have "(fst loc' = fst loc \<or> fst loc' = int k) \<and> snd loc' = iByte \<and>
      (ram s' = ram s1 \<or>
        ram s' = (ram s1)(aO + k div 8 := ram s1 (aO + k div 8) OR BV (k mod 8)))"
    proof cases
      case c
      with assms(3) sb have l: "loc' = (snd (resolve_conflict (ram s1) aS l k (fst loc)), iByte)"
        and s: "s' = wire1WriteBit d (fst (resolve_conflict (ram s1) aS l k (fst loc)))
                (if fst (resolve_conflict (ram s1) aS l k (fst loc)) \<noteq> 0
                 then set_out_bit aO iByte k s3 else s3)"
        by simp_all
      show ?thesis using rc by (simp add: l s ram_WriteBit so m3)
    next
      case e
      with assms(3) sb show ?thesis by simp
    next
      case f
      with assms(3) sb have l: "loc' = (fst loc, iByte)"
        and s: "s' = (if a \<noteq> 0 then set_out_bit aO iByte k (wire1WriteBit d a s3)
              else wire1WriteBit d a s3)"
        by simp_all
      show ?thesis by (simp add: l s ram_WriteBit so m3)
    qed
    then show "fst loc' = fst loc \<or> fst loc' = int k" and "snd loc' = iByte"
      and "ram s' = ram s1 \<or>
        ram s' = (ram s1)(aO + k div 8 := ram s1 (aO + k div 8) OR BV (k mod 8))"
      by simp_all
  qed
  have i': "snd loc' = of_nat ((Suc k - 1) div 8)" using ib ib' by simp
  have c': "fst loc' = 64 \<or> (0 \<le> fst loc' \<and> fst loc' < int (Suc k))"
    using c conf by auto
  have z': "Suc k mod 8 = 0 \<or> (\<forall>j\<ge>Suc k mod 8. \<not> bit (ram s' (aO + Suc k div 8)) j)"
  proof (cases "Suc k mod 8 = 0")
    case True
    then show ?thesis by simp
  next
    case False
    then have e: "Suc k div 8 = k div 8" "Suc k mod 8 = Suc (k mod 8)"
      by (simp_all add: div_Suc mod_Suc split: if_splits)
    have "\<not> bit (ram s' (aO + k div 8)) j" if "Suc (k mod 8) \<le> j" for j
    proof -
      from that have j: "k mod 8 \<le> j" "j \<noteq> k mod 8" by simp_all
      from mem show ?thesis
      proof
        assume "ram s' = ram s1"
        with z j show ?thesis by simp
      next
        assume "ram s' = (ram s1)(aO + k div 8 := ram s1 (aO + k div 8) OR BV (k mod 8))"
        with z j show ?thesis by (simp add: bit_or_iff bit_BV)
      qed
    qed
    then show ?thesis by (simp add: e)
  qed
  show ?thesis
    unfolding pass_inv_def using i' c' z' by simp
qed

lemma search_loop_inv:
  "k \<le> 64 \<Longrightarrow> search_loop d aO aS l 0 k (64, - 1) s0 = Inr (loc, s) \<Longrightarrow> pass_inv aO k loc s"
proof (induction k arbitrary: loc s)
  case 0
  then show ?case by (auto simp add: pass_inv_def)
next
  case (Suc k)
  from Suc.prems(2) [unfolded search_loop_Suc_end] obtain loc1 s1 where
    a: "search_loop d aO aS l 0 k (64, - 1) s0 = Inr (loc1, s1)"
    and b: "search_bit d aO aS l k loc1 s1 = Inr (loc, s)"
    by (auto split: sum.splits)
  from Suc.IH [OF _ a] Suc.prems(1) have "pass_inv aO k loc1 s1" by simp
  then show ?case
    using search_bit_inv [OF _ _ b] Suc.prems(1) by simp
qed

(*THMS-END*)

end
